theory Spec2Isabelle
  imports
    Main
    "HOL-Library.Word"
    "HOL-Library.Char_ord"
    "HOL-Library.Finite_Map"
begin

section \<open>kube-sentry-events: filter, deployment names, deduplicator, watcher, configuration\<close>

text \<open>
  A shallow embedding of the Go packages \<^verbatim>\<open>internal/filter\<close>, \<^verbatim>\<open>internal/sentry\<close>
  (\<^verbatim>\<open>ExtractDeploymentName\<close>), \<^verbatim>\<open>internal/dedup\<close>, \<^verbatim>\<open>internal/watcher\<close>
  (\<^verbatim>\<open>processEvent\<close>) and \<^verbatim>\<open>internal/config\<close> (\<^verbatim>\<open>Load\<close>).

  Conventions.
  \<^item> A Go \<^verbatim>\<open>string\<close> is a byte sequence: \<^typ>\<open>string\<close>, one \<^typ>\<open>char\<close> per byte;
    \<^verbatim>\<open>len(s)\<close> is \<^term>\<open>length s\<close>.
  \<^item> \<^verbatim>\<open>int32\<close> is \<^typ>\<open>32 word\<close>, compared as a signed number.
  \<^item> \<^verbatim>\<open>time.Time\<close> is an instant on an integer time line (nanoseconds), \<^verbatim>\<open>time.Duration\<close>
    an integer number of nanoseconds; \<^verbatim>\<open>time.Now()\<close> is an explicit argument \<open>now\<close> of
    every function that reads the clock.
  \<^item> A method with a pointer receiver that mutates its receiver returns the new receiver.
\<close>

type_synonym int32 = "32 word"
type_synonym Time = int
type_synonym Duration = int

subsection \<open>Kubernetes events (the fields the code reads)\<close>

record ObjectReference =
  obj_Kind :: string
  obj_Namespace :: string
  obj_Name :: string

record Event =
  ev_Namespace :: string  \<comment> \<open>\<^verbatim>\<open>ObjectMeta.Namespace\<close>\<close>
  InvolvedObject :: ObjectReference
  Reason :: string
  Message :: string
  ev_Type :: string
  Count :: int32

definition EventTypeWarning :: string where
  "EventTypeWarning = ''Warning''"

definition EventTypeNormal :: string where
  "EventTypeNormal = ''Normal''"

subsection \<open>Package filter\<close>

datatype Level = LevelDebug | LevelInfo | LevelWarning | LevelError | LevelFatal

text \<open>A Go \<^verbatim>\<open>map[string]struct{}\<close> is a set of strings; \<^verbatim>\<open>len(m) > 0\<close> is \<open>m \<noteq> {}\<close>.\<close>

record Filter =
  namespaces :: "string set"
  excludeNamespaces :: "string set"
  eventReasons :: "string set"
  eventThresholds :: "string \<rightharpoonup> int32"
  severityMap :: "string \<rightharpoonup> Level"

definition toSet :: "string list \<Rightarrow> string set" where
  "toSet strs = set strs"

definition defaultSeverityMap :: "string \<rightharpoonup> Level" where
  "defaultSeverityMap = map_of
     [(''OOMKilled'', LevelError),
      (''CrashLoopBackOff'', LevelError),
      (''FailedScheduling'', LevelError),
      (''Evicted'', LevelError),
      (''FailedMount'', LevelError),
      (''FailedAttachVolume'', LevelError),
      (''ImagePullBackOff'', LevelError),
      (''ErrImagePull'', LevelError),
      (''FailedCreate'', LevelError),
      (''Unhealthy'', LevelWarning),
      (''BackOff'', LevelWarning),
      (''Killing'', LevelWarning),
      (''NodeNotReady'', LevelWarning),
      (''FailedSync'', LevelWarning),
      (''NodeReady'', LevelInfo)]"

definition New_Filter ::
  "string list \<Rightarrow> string list \<Rightarrow> string list \<Rightarrow> (string \<rightharpoonup> int32) \<Rightarrow> Filter" where
  "New_Filter nss excl reasons thresholds =
     \<lparr> namespaces = toSet nss,
       excludeNamespaces = toSet excl,
       eventReasons = toSet reasons,
       eventThresholds = thresholds,
       severityMap = defaultSeverityMap \<rparr>"

text \<open>
  The effective namespace: \<^verbatim>\<open>ns := event.InvolvedObject.Namespace; if ns == "" { ns =
  event.Namespace }\<close>. The same three lines open \<^verbatim>\<open>ShouldProcess\<close> and \<^verbatim>\<open>processEvent\<close>.
\<close>

definition effectiveNamespace :: "Event \<Rightarrow> string" where
  "effectiveNamespace event =
     (let ns = obj_Namespace (InvolvedObject event)
      in if ns = [] then ev_Namespace event else ns)"

definition ShouldProcess :: "Filter \<Rightarrow> Event \<Rightarrow> bool" where
  "ShouldProcess f event =
     (let ns = effectiveNamespace event in
      if namespaces f \<noteq> {} \<and> ns \<notin> namespaces f then False
      else if ns \<in> excludeNamespaces f then False
      else if Reason event \<notin> eventReasons f then False
      else if ev_Type event \<noteq> EventTypeWarning then False
      else True)"

text \<open>\<^verbatim>\<open>event.Count >= threshold\<close> compares two \<^verbatim>\<open>int32\<close>: a signed comparison.\<close>

definition MeetsThreshold :: "Filter \<Rightarrow> Event \<Rightarrow> bool" where
  "MeetsThreshold f event =
     (case eventThresholds f (Reason event) of
        None \<Rightarrow> True
      | Some threshold \<Rightarrow> threshold \<le>s Count event)"

definition GetThreshold :: "Filter \<Rightarrow> string \<Rightarrow> int32" where
  "GetThreshold f reason =
     (case eventThresholds f reason of Some threshold \<Rightarrow> threshold | None \<Rightarrow> 1)"

definition GetSeverity :: "Filter \<Rightarrow> string \<Rightarrow> Level" where
  "GetSeverity f reason =
     (case severityMap f reason of Some level \<Rightarrow> level | None \<Rightarrow> LevelWarning)"

subsection \<open>Package sentry: the deployment name of a pod\<close>

text \<open>
  \<^verbatim>\<open>strings.Split(s, sep)\<close> and \<^verbatim>\<open>strings.Join(parts, sep)\<close> for a one-byte separator.
  \<^verbatim>\<open>Split\<close> of the empty string is the one-element slice holding the empty string.
\<close>

fun Split :: "string \<Rightarrow> char \<Rightarrow> string list" where
  "Split [] sep = [[]]"
| "Split (c # cs) sep =
     (if c = sep then [] # Split cs sep
      else (case Split cs sep of
              p # ps \<Rightarrow> (c # p) # ps
            | [] \<Rightarrow> [[c]]))"

fun Join :: "string list \<Rightarrow> string \<Rightarrow> string" where
  "Join [] sep = []"
| "Join [p] sep = p"
| "Join (p # ps) sep = p @ sep @ Join ps sep"

text \<open>
  \<^verbatim>\<open>isAlphanumeric\<close> ranges over the runes of \<open>s\<close>. A byte below 128 is its own rune; every
  other rune (a multi-byte code point, or U+FFFD for an invalid byte) is neither in
  \<^verbatim>\<open>'a'..'z'\<close> nor in \<^verbatim>\<open>'0'..'9'\<close> and comes from bytes that are not either. So the
  loop accepts \<open>s\<close> exactly when every byte of \<open>s\<close> is a lower-case letter or a digit.
\<close>

definition isLowerOrDigit :: "char \<Rightarrow> bool" where
  "isLowerOrDigit r =
     (let isLower = (CHR ''a'' \<le> r \<and> r \<le> CHR ''z'');
          isDigit = (CHR ''0'' \<le> r \<and> r \<le> CHR ''9'')
      in \<not> (\<not> isLower \<and> \<not> isDigit))"

fun isAlphanumeric :: "string \<Rightarrow> bool" where
  "isAlphanumeric [] = True"
| "isAlphanumeric (r # rs) = (if \<not> isLowerOrDigit r then False else isAlphanumeric rs)"

definition ExtractDeploymentName :: "string \<Rightarrow> string" where
  "ExtractDeploymentName podName =
     (let parts = Split podName CHR ''-'' in
      if length parts < 3 then podName
      else
        let lastPart = parts ! (length parts - 1);
            secondLastPart = parts ! (length parts - 2)
        in if length lastPart \<le> 6 \<and> length secondLastPart \<ge> 5 \<and> length secondLastPart \<le> 12
           then (if isAlphanumeric lastPart \<and> isAlphanumeric secondLastPart
                 then Join (take (length parts - 2) parts) ''-''
                 else podName)
           else podName)"

subsection \<open>Package dedup\<close>

text \<open>
  The cache: \<^verbatim>\<open>entries map[string]*entry\<close> is a finite map, \<^verbatim>\<open>order []string\<close> a list.
  Every pointer to an entry is held by the map alone, so an update through the pointer is
  an update of the map at the entry's key. \<^verbatim>\<open>count\<close> is a Go \<^verbatim>\<open>int\<close> (64 bits); it is
  modelled as an unbounded integer: it grows by one per call, and 2^63 calls are out of reach.
  The mutex makes every method atomic, so the cache's history is a sequence of calls.
\<close>

definition MaxEntries :: nat where
  "MaxEntries = 10000"

record entry =
  key :: string
  expiresAt :: Time
  count :: int
  firstSeen :: Time
  lastSeen :: Time

record Deduplicator =
  window :: Duration
  entries :: "(string, entry) fmap"
  order :: "string list"

definition New :: "Duration \<Rightarrow> Deduplicator" where
  "New w = \<lparr> window = w, entries = fmempty, order = [] \<rparr>"

definition Size :: "Deduplicator \<Rightarrow> nat" where
  "Size d = fcard (fmdom (entries d))"

text \<open>
  The eviction loop of \<^verbatim>\<open>addEntry\<close>:
  \<^verbatim>\<open>for len(d.entries) >= MaxEntries && len(d.order) > 0 { oldest := d.order[0]; d.order =
  d.order[1:]; delete(d.entries, oldest) }\<close>, on the pair of the map and the list.
\<close>

fun evict :: "(string, entry) fmap \<Rightarrow> string list \<Rightarrow> (string, entry) fmap \<times> string list" where
  "evict es [] = (es, [])"
| "evict es (oldest # rest) =
     (if fcard (fmdom es) \<ge> MaxEntries then evict (fmdrop oldest es) rest
      else (es, oldest # rest))"

definition addEntry :: "Deduplicator \<Rightarrow> string \<Rightarrow> Time \<Rightarrow> Deduplicator" where
  "addEntry d k now =
     (case evict (entries d) (order d) of
        (es, ord) \<Rightarrow>
          let e = \<lparr> key = k, expiresAt = now + window d, count = 1,
                    firstSeen = now, lastSeen = now \<rparr>
          in d\<lparr> entries := fmupd k e es, order := ord @ [k] \<rparr>)"

definition dedupKey :: "string \<Rightarrow> string \<Rightarrow> string \<Rightarrow> string" where
  "dedupKey namespace pod reason = namespace @ ''/'' @ pod @ ''/'' @ reason"

text \<open>
  \<^verbatim>\<open>Check\<close> returns \<^verbatim>\<open>(isNew, count, firstSeen, lastSeen)\<close>; the model returns this tuple
  and the cache after the call.
\<close>

type_synonym CheckResult = "bool \<times> int \<times> Time \<times> Time"

definition Check ::
  "Deduplicator \<Rightarrow> Time \<Rightarrow> string \<Rightarrow> string \<Rightarrow> string \<Rightarrow> CheckResult \<times> Deduplicator" where
  "Check d now namespace pod reason =
     (let k = dedupKey namespace pod reason in
      case fmlookup (entries d) k of
        Some e \<Rightarrow>
          if now < expiresAt e then
            let e' = e\<lparr> count := count e + 1, lastSeen := now, expiresAt := now + window d \<rparr>
            in ((False, count e', firstSeen e', lastSeen e'),
                d\<lparr> entries := fmupd k e' (entries d) \<rparr>)
          else
            ((True, 1, now, now), addEntry (d\<lparr> entries := fmdrop k (entries d) \<rparr>) k now)
      | None \<Rightarrow> ((True, 1, now, now), addEntry d k now))"

text \<open>\<^verbatim>\<open>GetStats\<close> returns \<^verbatim>\<open>(count, firstSeen, lastSeen, exists)\<close> and changes nothing.\<close>

definition GetStats ::
  "Deduplicator \<Rightarrow> Time \<Rightarrow> string \<Rightarrow> string \<Rightarrow> string \<Rightarrow> int \<times> Time \<times> Time \<times> bool" where
  "GetStats d now namespace pod reason =
     (case fmlookup (entries d) (dedupKey namespace pod reason) of
        Some e \<Rightarrow> if now < expiresAt e then (count e, firstSeen e, lastSeen e, True)
                  else (0, 0, 0, False)
      | None \<Rightarrow> (0, 0, 0, False))"

text \<open>The loop of \<^verbatim>\<open>cleanup\<close> over \<^verbatim>\<open>d.order\<close>, deleting from the map as it goes.\<close>

fun cleanup_loop ::
  "Time \<Rightarrow> string list \<Rightarrow> (string, entry) fmap \<Rightarrow> string list
     \<Rightarrow> (string, entry) fmap \<times> string list" where
  "cleanup_loop now [] es newOrder = (es, newOrder)"
| "cleanup_loop now (k # ks) es newOrder =
     (case fmlookup es k of
        Some e \<Rightarrow>
          if now < expiresAt e then cleanup_loop now ks es (newOrder @ [k])
          else cleanup_loop now ks (fmdrop k es) newOrder
      | None \<Rightarrow> cleanup_loop now ks es newOrder)"

definition cleanup :: "Deduplicator \<Rightarrow> Time \<Rightarrow> Deduplicator" where
  "cleanup d now =
     (case cleanup_loop now (order d) (entries d) [] of
        (es, newOrder) \<Rightarrow> d\<lparr> entries := es, order := newOrder \<rparr>)"

text \<open>
  A history of the cache: calls of \<^verbatim>\<open>Check\<close> and sweeps of the background
  \<^verbatim>\<open>cleanupLoop\<close>, each with the clock value it reads, in the order the mutex admits them.
\<close>

datatype dedup_op = OpCheck string string string | OpCleanup

fun step :: "Deduplicator \<Rightarrow> Time \<times> dedup_op \<Rightarrow> Deduplicator" where
  "step d (now, OpCheck namespace pod reason) = snd (Check d now namespace pod reason)"
| "step d (now, OpCleanup) = cleanup d now"

definition run :: "Deduplicator \<Rightarrow> (Time \<times> dedup_op) list \<Rightarrow> Deduplicator" where
  "run d ops = foldl step d ops"

text \<open>The invariant of an entry, and of every entry of a cache.\<close>

definition entry_ok :: "entry \<Rightarrow> bool" where
  "entry_ok e = (firstSeen e \<le> lastSeen e \<and> lastSeen e \<le> expiresAt e \<and> 1 \<le> count e)"

definition entries_ok :: "Deduplicator \<Rightarrow> bool" where
  "entries_ok d = fmpred (\<lambda>k e. entry_ok e) (entries d)"

definition seen_by :: "Deduplicator \<Rightarrow> Time \<Rightarrow> bool" where
  "seen_by d t = fmpred (\<lambda>k e. lastSeen e \<le> t) (entries d)"

subsection \<open>Package watcher: \<^verbatim>\<open>processEvent\<close>\<close>

record EventData =
  ed_Event :: Event
  Severity :: Level
  ed_Count :: int
  FirstSeen :: Time
  LastSeen :: Time
  ed_MeetsThreshold :: bool  \<comment> \<open>whether this event should create an Issue\<close>

text \<open>
  The watcher's state as far as \<^verbatim>\<open>processEvent\<close> touches it: the filter, the deduplicator,
  and the sender, which is an interface with the one method \<^verbatim>\<open>Send\<close>; the model keeps the
  list of the values handed to \<^verbatim>\<open>Send\<close>, oldest first. Log lines are not modelled.
\<close>

record Watcher =
  w_filter :: Filter
  w_dedup :: Deduplicator
  w_sent :: "EventData list"

definition processEvent :: "Watcher \<Rightarrow> Time \<Rightarrow> Event \<Rightarrow> Watcher" where
  "processEvent w now event =
     (if \<not> ShouldProcess (w_filter w) event then w
      else
        let namespace = effectiveNamespace event;
            podName = obj_Name (InvolvedObject event);
            reason = Reason event;
            deployment = ExtractDeploymentName podName;
            severity = GetSeverity (w_filter w) reason;
            meetsThreshold = MeetsThreshold (w_filter w) event
        in case Check (w_dedup w) now namespace deployment reason of
             ((isNew, cnt, firstSeen', lastSeen'), d') \<Rightarrow>
               let shouldCreateIssue = (meetsThreshold \<and> isNew)
               in w\<lparr> w_dedup := d',
                     w_sent := w_sent w @
                       [\<lparr> ed_Event = event, Severity = severity, ed_Count = cnt,
                          FirstSeen = firstSeen', LastSeen = lastSeen',
                          ed_MeetsThreshold = shouldCreateIssue \<rparr>] \<rparr>)"

subsection \<open>Package config: \<^verbatim>\<open>Load\<close>\<close>

datatype error =
    ErrSentryDSNRequired
  | ErrExpectedInteger string
  | ErrInvalidThreshold string error
  | ErrInvalidDedupWindow error
  | ErrLibrary string

text \<open>
  \<^verbatim>\<open>Load\<close> calls three functions of Go's standard library whose code is not part of the
  repository. They are parameters of the model:
  \<^item> \<open>TrimSpace\<close> is \<^verbatim>\<open>strings.TrimSpace\<close>;
  \<^item> \<open>Sscanf_d s\<close> is \<^verbatim>\<open>fmt.Sscanf(s, "%d", &result)\<close> for an \<^verbatim>\<open>int32\<close> result:
    the number of items scanned, the error, and the value left in \<^verbatim>\<open>result\<close>;
  \<^item> \<open>ParseDuration\<close> is \<^verbatim>\<open>time.ParseDuration\<close>: the duration and the error.
  The environment is the function \<^verbatim>\<open>os.Getenv\<close>: an unset variable reads as the empty
  string.
\<close>

record GoLib =
  TrimSpace :: "string \<Rightarrow> string"
  Sscanf_d :: "string \<Rightarrow> int \<times> error option \<times> int32"
  ParseDuration :: "string \<Rightarrow> Duration \<times> error option"

record Config =
  SentryDSN :: string
  SentryEnvironment :: string
  Namespaces :: "string list"
  ExcludeNamespaces :: "string list"
  EventReasons :: "string list"
  EventThresholds :: "string \<rightharpoonup> int32"
  EnableLogs :: bool
  DedupWindow :: Duration
  LogLevel :: string

definition DefaultEventReasons :: "string list" where
  "DefaultEventReasons =
     [''OOMKilled'', ''CrashLoopBackOff'', ''FailedScheduling'', ''Evicted'', ''FailedMount'',
      ''FailedAttachVolume'', ''Unhealthy'', ''ImagePullBackOff'', ''ErrImagePull'', ''BackOff'',
      ''FailedCreate'']"

definition DefaultEventThresholds :: "string \<rightharpoonup> int32" where
  "DefaultEventThresholds = map_of
     [(''OOMKilled'', 1),
      (''CrashLoopBackOff'', 1),
      (''Evicted'', 1),
      (''FailedScheduling'', 1),
      (''FailedMount'', 1),
      (''FailedAttachVolume'', 1),
      (''Unhealthy'', 5),
      (''BackOff'', 3),
      (''ImagePullBackOff'', 3),
      (''ErrImagePull'', 2),
      (''FailedCreate'', 2)]"

definition parseThreshold :: "GoLib \<Rightarrow> string \<Rightarrow> int32 \<times> error option" where
  "parseThreshold L s =
     (case Sscanf_d L s of
        (n, err, result) \<Rightarrow>
          if err \<noteq> None \<or> n \<noteq> 1 then (0, Some (ErrExpectedInteger s))
          else (result, None))"

definition getEnvOrDefault :: "(string \<Rightarrow> string) \<Rightarrow> string \<Rightarrow> string \<Rightarrow> string" where
  "getEnvOrDefault getenv k defaultValue =
     (let v = getenv k in if v \<noteq> [] then v else defaultValue)"

definition splitAndTrim :: "GoLib \<Rightarrow> string \<Rightarrow> string list" where
  "splitAndTrim L s = [trimmed \<leftarrow> map (TrimSpace L) (Split s CHR '',''). trimmed \<noteq> []]"

text \<open>
  \<^verbatim>\<open>strings.SplitN(s, sep, 2)\<close> for a one-byte separator: the string itself when it has
  no separator, else the text before the first separator and the text after it.
\<close>

definition SplitN2 :: "string \<Rightarrow> char \<Rightarrow> string list" where
  "SplitN2 s sep =
     (if sep \<in> set s
      then [takeWhile (\<lambda>c. c \<noteq> sep) s, tl (dropWhile (\<lambda>c. c \<noteq> sep) s)]
      else [s])"

text \<open>
  The loop of \<^verbatim>\<open>Load\<close> over the items of \<^verbatim>\<open>KUBE_SENTRY_THRESHOLDS\<close>, on the thresholds
  map: it returns at the first item whose count does not parse.
\<close>

fun parseThresholdItems ::
  "GoLib \<Rightarrow> string list \<Rightarrow> (string \<rightharpoonup> int32) \<Rightarrow> (string \<rightharpoonup> int32) \<times> error option" where
  "parseThresholdItems L [] th = (th, None)"
| "parseThresholdItems L (item # items) th =
     (let parts = SplitN2 item CHR '':'' in
      if length parts = 2 then
        let reason = TrimSpace L (parts ! 0);
            countStr = TrimSpace L (parts ! 1)
        in case parseThreshold L countStr of
             (cnt, Some err) \<Rightarrow> (th, Some (ErrInvalidThreshold reason err))
           | (cnt, None) \<Rightarrow> parseThresholdItems L items (th(reason \<mapsto> cnt))
      else parseThresholdItems L items th)"

text \<open>
  \<^verbatim>\<open>Load\<close> returns \<^verbatim>\<open>(*Config, error)\<close>: the model returns the pair, \<open>None\<close> for
  \<^verbatim>\<open>nil\<close>.
\<close>

definition Load :: "GoLib \<Rightarrow> (string \<Rightarrow> string) \<Rightarrow> bool \<Rightarrow> Config option \<times> error option" where
  "Load L getenv dryRun =
     (let cfg = \<lparr> SentryDSN = getenv ''SENTRY_DSN'',
                  SentryEnvironment = getEnvOrDefault getenv ''SENTRY_ENVIRONMENT'' ''production'',
                  Namespaces = [], ExcludeNamespaces = [], EventReasons = [],
                  EventThresholds = Map.empty, EnableLogs = False, DedupWindow = 0,
                  LogLevel = getEnvOrDefault getenv ''KUBE_SENTRY_LOG_LEVEL'' ''info'' \<rparr>
      in
      if \<not> dryRun \<and> SentryDSN cfg = [] then (None, Some ErrSentryDSNRequired)
      else
        let ns = getenv ''KUBE_SENTRY_NAMESPACES'';
            cfg = (if ns \<noteq> [] then cfg\<lparr> Namespaces := splitAndTrim L ns \<rparr> else cfg);
            excludeNs = getenv ''KUBE_SENTRY_EXCLUDE_NAMESPACES'';
            cfg = (if excludeNs \<noteq> [] then cfg\<lparr> ExcludeNamespaces := splitAndTrim L excludeNs \<rparr>
                   else cfg\<lparr> ExcludeNamespaces := [''kube-system''] \<rparr>);
            events = getenv ''KUBE_SENTRY_EVENTS'';
            cfg = (if events \<noteq> [] then cfg\<lparr> EventReasons := splitAndTrim L events \<rparr>
                   else cfg\<lparr> EventReasons := DefaultEventReasons \<rparr>);
            cfg = cfg\<lparr> EventThresholds := DefaultEventThresholds \<rparr>;
            thresholds = getenv ''KUBE_SENTRY_THRESHOLDS''
        in case (if thresholds \<noteq> []
                 then parseThresholdItems L (splitAndTrim L thresholds) (EventThresholds cfg)
                 else (EventThresholds cfg, None)) of
             (th, Some err) \<Rightarrow> (None, Some err)
           | (th, None) \<Rightarrow>
               let cfg = cfg\<lparr> EventThresholds := th \<rparr>;
                   enableLogsStr = getEnvOrDefault getenv ''KUBE_SENTRY_ENABLE_LOGS'' ''true'';
                   cfg = cfg\<lparr> EnableLogs := (enableLogsStr = ''true'' \<or> enableLogsStr = ''1'') \<rparr>;
                   dedupStr = getEnvOrDefault getenv ''KUBE_SENTRY_DEDUP_WINDOW'' ''5m''
               in case ParseDuration L dedupStr of
                    (dedupWindow, Some err) \<Rightarrow> (None, Some (ErrInvalidDedupWindow err))
                  | (dedupWindow, None) \<Rightarrow> (Some (cfg\<lparr> DedupWindow := dedupWindow \<rparr>), None))"

subsection \<open>Auxiliary definitions for the proofs\<close>

text \<open>The invariant behind the capacity bound: every key of the map stands in \<open>order\<close>.\<close>

definition cache_inv :: "Deduplicator \<Rightarrow> bool" where
  "cache_inv d \<longleftrightarrow> fmdom' (entries d) \<subseteq> set (order d) \<and> Size d \<le> MaxEntries"

text \<open>The entry that \<^verbatim>\<open>addEntry\<close> builds.\<close>

definition fresh_entry :: "string \<Rightarrow> Time \<Rightarrow> Duration \<Rightarrow> entry" where
  "fresh_entry k now w =
     \<lparr> key = k, expiresAt = now + w, count = 1, firstSeen = now, lastSeen = now \<rparr>"

subsection \<open>Concrete inputs\<close>

text \<open>An event, a filter and a watcher.\<close>

definition ev1 :: Event where
  "ev1 = \<lparr> ev_Namespace = ''production'',
           InvolvedObject =
             \<lparr> obj_Kind = ''Pod'', obj_Namespace = [], obj_Name = ''worker-79c6dd4b57-wcdzt'' \<rparr>,
           Reason = ''OOMKilled'', Message = ''Container killed'', ev_Type = ''Warning'',
           Count = 1 \<rparr>"

definition ev2 :: Event where
  "ev2 = ev1\<lparr> Reason := ''Unhealthy'', Count := 3 \<rparr>"

definition f1 :: Filter where
  "f1 = New_Filter [''production''] [''kube-system''] [''OOMKilled'', ''Unhealthy'']
          (map_of [(''Unhealthy'', 5)])"

definition w1 :: Watcher where
  "w1 = \<lparr> w_filter = f1, w_dedup = New 300, w_sent = [] \<rparr>"

text \<open>A short history of a cache with window 300.\<close>

definition ops1 :: "(Time \<times> dedup_op) list" where
  "ops1 = [(0, OpCheck ''default'' ''my-pod'' ''OOMKilled''),
           (10, OpCheck ''default'' ''my-pod'' ''OOMKilled''),
           (20, OpCheck ''default'' ''other'' ''BackOff''),
           (400, OpCleanup)]"

text \<open>
  A history that fills a cache of window 10: a first key \<open>k\<close> at time 0, then 9999 other
  keys at time 5, then \<open>k\<close> again at time 10, when its entry has expired.
\<close>

definition fill_key :: "nat \<Rightarrow> string" where
  "fill_key i = dedupKey (replicate (Suc i) CHR ''x'') ''pod'' ''OOMKilled''"

definition fill_ops :: "nat \<Rightarrow> (Time \<times> dedup_op) list" where
  "fill_ops n =
     map (\<lambda>i. (5, OpCheck (replicate (Suc i) CHR ''x'') ''pod'' ''OOMKilled'')) [0..<n]"

definition stale_scenario :: "(Time \<times> dedup_op) list" where
  "stale_scenario =
     (0, OpCheck ''k'' ''pod'' ''OOMKilled'') # fill_ops 9999
       @ [(10, OpCheck ''k'' ''pod'' ''OOMKilled'')]"



definition isDigit :: "char \<Rightarrow> bool" where
  "isDigit c = (CHR ''0'' \<le> c \<and> c \<le> CHR ''9'')"





definition env_of :: "(string \<times> string) list \<Rightarrow> string \<Rightarrow> string" where
  "env_of kvs k = (case map_of kvs k of Some v \<Rightarrow> v | None \<Rightarrow> [])"

definition env_no_colon :: "string \<Rightarrow> string" where
  "env_no_colon = env_of [(''SENTRY_DSN'', ''https://key@sentry.example/1''),
                          (''KUBE_SENTRY_THRESHOLDS'', ''Unhealthy'')]"


section \<open>Properties\<close>

subsection \<open>The filter\<close>

text \<open>
  C3. \<^verbatim>\<open>ShouldProcess\<close> accepts an event exactly when (1) the allow set is empty or holds
  the effective namespace, (2) the deny set does not hold it, (3) the reason is watched and
  (4) the type is \<^verbatim>\<open>Warning\<close>; the effective namespace is the involved object's namespace,
  or the event's own when that is empty. So an event of any other type is rejected.
\<close>

theorem ShouldProcess_iff:
  "(ShouldProcess f e \<longleftrightarrow>
      ((namespaces f \<noteq> {} \<longrightarrow> effectiveNamespace e \<in> namespaces f)
       \<and> effectiveNamespace e \<notin> excludeNamespaces f
       \<and> Reason e \<in> eventReasons f
       \<and> ev_Type e = EventTypeWarning))
   \<and> effectiveNamespace e =
       (if obj_Namespace (InvolvedObject e) = [] then ev_Namespace e
        else obj_Namespace (InvolvedObject e))
   \<and> (ev_Type e \<noteq> EventTypeWarning \<longrightarrow> \<not> ShouldProcess f e)"
  by (auto simp: ShouldProcess_def effectiveNamespace_def Let_def)

theorem ShouldProcess_iff_witness:
  "ShouldProcess f1 ev1 \<and> \<not> ShouldProcess f1 (ev1\<lparr> ev_Type := EventTypeNormal \<rparr>)
   \<and> \<not> ShouldProcess f1 (ev1\<lparr> ev_Namespace := ''staging'' \<rparr>)"
  using ShouldProcess_iff[of f1 ev1] ShouldProcess_iff[of f1 "ev1\<lparr> ev_Type := EventTypeNormal \<rparr>"]
    ShouldProcess_iff[of f1 "ev1\<lparr> ev_Namespace := ''staging'' \<rparr>"]
  by (simp add: f1_def ev1_def New_Filter_def toSet_def effectiveNamespace_def
      EventTypeWarning_def EventTypeNormal_def)

text \<open>
  C4. \<^verbatim>\<open>MeetsThreshold\<close> holds exactly when the reason has no configured threshold or the
  event's count is at least the configured threshold (as signed 32-bit numbers); two calls
  that agree on the reason, the count and the thresholds map return the same.
\<close>

theorem MeetsThreshold_iff:
  "(MeetsThreshold f e \<longleftrightarrow>
      (eventThresholds f (Reason e) = None
       \<or> (\<exists>t. eventThresholds f (Reason e) = Some t \<and> sint t \<le> sint (Count e))))
   \<and> (\<forall>f' e'. Reason e' = Reason e \<and> Count e' = Count e
                 \<and> eventThresholds f' = eventThresholds f
         \<longrightarrow> MeetsThreshold f' e' = MeetsThreshold f e)"
  by (auto simp: MeetsThreshold_def word_sle_eq split: option.splits)

theorem MeetsThreshold_iff_witness:
  "MeetsThreshold f1 ev1
   \<and> \<not> MeetsThreshold f1 (ev1\<lparr> Reason := ''Unhealthy'', Count := 4 \<rparr>)
   \<and> MeetsThreshold f1 (ev1\<lparr> Reason := ''Unhealthy'', Count := 5 \<rparr>)"
  using MeetsThreshold_iff[of f1 ev1]
    MeetsThreshold_iff[of f1 "ev1\<lparr> Reason := ''Unhealthy'', Count := 4 \<rparr>"]
    MeetsThreshold_iff[of f1 "ev1\<lparr> Reason := ''Unhealthy'', Count := 5 \<rparr>"]
  by (simp add: f1_def ev1_def New_Filter_def)

subsection \<open>The deployment name\<close>

text \<open>\<^verbatim>\<open>Split\<close> is the splitting: separator-free segments whose join is the string.\<close>

lemma Split_nonempty: "Split s c \<noteq> []"
  by (induction s) (auto split: list.splits)

lemma Join_Cons: "ps \<noteq> [] \<Longrightarrow> Join (p # ps) sep = p @ sep @ Join ps sep"
  by (cases ps) auto

lemma Join_Split: "Join (Split s c) [c] = s"
proof (induction s)
  case Nil
  show ?case by simp
next
  case (Cons a s)
  then show ?case using Split_nonempty[of s c]
    by (cases "Split s c") (auto simp: Join_Cons split: list.splits, (case_tac list; simp)+)
qed

lemma Split_no_sep: "p \<in> set (Split s c) \<Longrightarrow> c \<notin> set p"
  by (induction s arbitrary: p) (auto split: list.splits if_splits)

lemma isAlphanumeric_iff: "isAlphanumeric s \<longleftrightarrow> (\<forall>r \<in> set s. isLowerOrDigit r)"
  by (induction s) auto

text \<open>
  C5. With the pod name split on \<^verbatim>\<open>-\<close>: if there are at least 3 segments, the last has
  length at most 6 and only lower-case letters and digits, and the one before it has length
  from 5 to 12 and only lower-case letters and digits, \<^verbatim>\<open>ExtractDeploymentName\<close> returns
  the segments before the last two joined by \<^verbatim>\<open>-\<close>; otherwise it returns the pod name.
\<close>

theorem ExtractDeploymentName_spec:
  "ExtractDeploymentName podName =
     (let segs = Split podName CHR ''-'' in
      if 3 \<le> length segs
         \<and> length (last segs) \<le> 6 \<and> (\<forall>c \<in> set (last segs). isLowerOrDigit c)
         \<and> 5 \<le> length (last (butlast segs)) \<and> length (last (butlast segs)) \<le> 12
         \<and> (\<forall>c \<in> set (last (butlast segs)). isLowerOrDigit c)
      then Join (butlast (butlast segs)) ''-''
      else podName)"
proof -
  define segs where "segs = Split podName CHR ''-''"
  show ?thesis
  proof (cases "length segs < 3")
    case True
    then show ?thesis by (simp add: ExtractDeploymentName_def segs_def[symmetric] Let_def)
  next
    case False
    then have ne: "segs \<noteq> []" "butlast segs \<noteq> []"
      by (auto simp flip: length_0_conv)
    have l: "segs ! (length segs - Suc 0) = last segs" using ne by (simp add: last_conv_nth)
    have "last (butlast segs) = butlast segs ! (length (butlast segs) - 1)"
      using ne by (simp add: last_conv_nth)
    also have "\<dots> = segs ! (length segs - 2)"
      using False by (simp add: nth_butlast numeral_2_eq_2)
    finally have p: "segs ! (length segs - 2) = last (butlast segs)" by simp
    have t: "take (length segs - 2) segs = butlast (butlast segs)"
      by (simp add: butlast_conv_take numeral_2_eq_2)
    show ?thesis using False
      by (auto simp add: ExtractDeploymentName_def segs_def[symmetric] Let_def l p t
          isAlphanumeric_iff)
  qed
qed

theorem ExtractDeploymentName_spec_witness:
  "ExtractDeploymentName ''worker-79c6dd4b57-wcdzt'' = ''worker''
   \<and> ExtractDeploymentName ''redis-0'' = ''redis-0''
   \<and> ExtractDeploymentName ''a-b-c'' = ''a-b-c''
   \<and> ExtractDeploymentName ''my-complex-app-name-abc123def-x1y2z'' = ''my-complex-app-name''"
  using ExtractDeploymentName_spec[of "''worker-79c6dd4b57-wcdzt''"]
    ExtractDeploymentName_spec[of "''redis-0''"] ExtractDeploymentName_spec[of "''a-b-c''"]
    ExtractDeploymentName_spec[of "''my-complex-app-name-abc123def-x1y2z''"]
  by (simp add: isLowerOrDigit_def)

subsection \<open>The deduplicator: one call of \<^verbatim>\<open>Check\<close>\<close>

lemma window_addEntry [simp]: "window (addEntry d k now) = window d"
  by (simp add: addEntry_def split: prod.splits)

lemma window_Check [simp]: "window (snd (Check d now n g r)) = window d"
  by (simp add: Check_def Let_def split: option.splits)

lemma window_cleanup [simp]: "window (cleanup d now) = window d"
  by (simp add: cleanup_def split: prod.splits)

lemma window_step [simp]: "window (step d op) = window d"
  by (cases op; cases "snd op") auto

lemma addEntry_lookup:
  "fmlookup (entries (addEntry d k now)) k =
     Some \<lparr> key = k, expiresAt = now + window d, count = 1, firstSeen = now, lastSeen = now \<rparr>"
  by (simp add: addEntry_def split: prod.splits)

text \<open>
  C2. A call \<^verbatim>\<open>Check(namespace, group, reason)\<close> at time \<open>now\<close>, with key
  \<open>namespace/group/reason\<close>. If the key has an entry and \<open>now\<close> is before its
  \<open>expiresAt\<close>, the call returns \<open>(false, count + 1, firstSeen, now)\<close> and leaves the entry
  with its count incremented, \<open>lastSeen = now\<close> and \<open>expiresAt = now + window\<close>. Otherwise
  (no entry, or an entry with \<open>expiresAt \<le> now\<close>) it returns \<open>(true, 1, now, now)\<close> and
  leaves the fresh entry with count 1, \<open>firstSeen = lastSeen = now\<close> and
  \<open>expiresAt = now + window\<close>.
\<close>

theorem Check_spec:
  "((\<exists>e. fmlookup (entries d) (dedupKey ns g r) = Some e \<and> now < expiresAt e) \<longrightarrow>
      (\<exists>e. fmlookup (entries d) (dedupKey ns g r) = Some e
         \<and> fst (Check d now ns g r) = (False, count e + 1, firstSeen e, now)
         \<and> fmlookup (entries (snd (Check d now ns g r))) (dedupKey ns g r) =
             Some (e\<lparr> count := count e + 1, lastSeen := now, expiresAt := now + window d \<rparr>)))
   \<and> (\<not> (\<exists>e. fmlookup (entries d) (dedupKey ns g r) = Some e \<and> now < expiresAt e) \<longrightarrow>
        fst (Check d now ns g r) = (True, 1, now, now)
        \<and> fmlookup (entries (snd (Check d now ns g r))) (dedupKey ns g r) =
            Some \<lparr> key = dedupKey ns g r, expiresAt = now + window d, count = 1,
                   firstSeen = now, lastSeen = now \<rparr>)
   \<and> dedupKey ns g r = ns @ ''/'' @ g @ ''/'' @ r"
  by (auto simp: Check_def Let_def addEntry_lookup dedupKey_def split: option.splits)

theorem Check_spec_witness:
  "fst (Check (New 300) 0 ''default'' ''my-pod'' ''OOMKilled'') = (True, 1, 0, 0)
   \<and> fst (Check (snd (Check (New 300) 0 ''default'' ''my-pod'' ''OOMKilled'')) 10
            ''default'' ''my-pod'' ''OOMKilled'') = (False, 2, 0, 10)
   \<and> fmlookup (entries (snd (Check (snd (Check (New 300) 0 ''default'' ''my-pod'' ''OOMKilled'')) 10
            ''default'' ''my-pod'' ''OOMKilled''))) ''default/my-pod/OOMKilled'' =
        Some \<lparr> key = ''default/my-pod/OOMKilled'', expiresAt = 310, count = 2,
               firstSeen = 0, lastSeen = 10 \<rparr>
   \<and> fst (Check (snd (Check (New 300) 0 ''default'' ''my-pod'' ''OOMKilled'')) 300
            ''default'' ''my-pod'' ''OOMKilled'') = (True, 1, 300, 300)"
proof -
  let ?d1 = "snd (Check (New 300) 0 ''default'' ''my-pod'' ''OOMKilled'')"
  have a: "fmlookup (entries (New 300)) (dedupKey ''default'' ''my-pod'' ''OOMKilled'') = None"
    by (simp add: New_def)
  have w: "window (New 300) = 300" by (simp add: New_def)
  have k: "dedupKey ''default'' ''my-pod'' ''OOMKilled'' = ''default/my-pod/OOMKilled''"
    by (simp add: dedupKey_def)
  have 1: "fst (Check (New 300) 0 ''default'' ''my-pod'' ''OOMKilled'') = (True, 1, 0, 0)"
    and l1: "fmlookup (entries ?d1) (dedupKey ''default'' ''my-pod'' ''OOMKilled'') =
       Some \<lparr> key = dedupKey ''default'' ''my-pod'' ''OOMKilled'', expiresAt = 300, count = 1,
              firstSeen = 0, lastSeen = 0 \<rparr>"
    using Check_spec[of "New 300" "''default''" "''my-pod''" "''OOMKilled''" 0, THEN conjunct2, THEN conjunct1] a w
    by simp_all
  have 2: "fst (Check ?d1 10 ''default'' ''my-pod'' ''OOMKilled'') = (False, 2, 0, 10)
     \<and> fmlookup (entries (snd (Check ?d1 10 ''default'' ''my-pod'' ''OOMKilled'')))
          (dedupKey ''default'' ''my-pod'' ''OOMKilled'') =
        Some \<lparr> key = dedupKey ''default'' ''my-pod'' ''OOMKilled'', expiresAt = 310, count = 2,
               firstSeen = 0, lastSeen = 10 \<rparr>"
    using Check_spec[of ?d1 "''default''" "''my-pod''" "''OOMKilled''" 10, THEN conjunct1] l1 w by simp
  have 3: "fst (Check ?d1 300 ''default'' ''my-pod'' ''OOMKilled'') = (True, 1, 300, 300)"
    using Check_spec[of ?d1 "''default''" "''my-pod''" "''OOMKilled''" 300, THEN conjunct2, THEN conjunct1] l1
    by simp
  show ?thesis using 1 2 3 by (simp add: k)
qed

text \<open>
  C10. The key is the bare concatenation \<open>namespace/group/reason\<close>: two triples with the
  same concatenation are the same call, as \<open>(a, b/c, r)\<close> and \<open>(a/b, c, r)\<close> are; when
  \<^verbatim>\<open>Check("a", "b/c", "r")\<close> at \<open>t1\<close> returns \<open>isNew = true\<close>, a call
  \<^verbatim>\<open>Check("a/b", "c", "r")\<close> at a time \<open>t2\<close> before \<open>t1 + window\<close> returns
  \<open>isNew = false\<close> with count 2.
\<close>

theorem key_collision:
  "(dedupKey n1 g1 r1 = dedupKey n2 g2 r2 \<longrightarrow> Check d t n1 g1 r1 = Check d t n2 g2 r2)
   \<and> dedupKey ''a'' ''b/c'' ''r'' = dedupKey ''a/b'' ''c'' ''r''
   \<and> (fst (fst (Check d t1 ''a'' ''b/c'' ''r'')) \<and> t2 < t1 + window d \<longrightarrow>
        fst (Check (snd (Check d t1 ''a'' ''b/c'' ''r'')) t2 ''a/b'' ''c'' ''r'')
          = (False, 2, t1, t2))"
proof -
  have k: "dedupKey ''a'' ''b/c'' ''r'' = dedupKey ''a/b'' ''c'' ''r''"
    by (simp add: dedupKey_def)
  have 1: "dedupKey n1 g1 r1 = dedupKey n2 g2 r2 \<longrightarrow> Check d t n1 g1 r1 = Check d t n2 g2 r2"
    by (simp add: Check_def)
  have 2: "fst (Check (snd (Check d t1 ''a'' ''b/c'' ''r'')) t2 ''a/b'' ''c'' ''r'')
             = (False, 2, t1, t2)"
    if "fst (fst (Check d t1 ''a'' ''b/c'' ''r''))" "t2 < t1 + window d"
  proof -
    let ?k = "dedupKey ''a'' ''b/c'' ''r''"
    let ?d1 = "snd (Check d t1 ''a'' ''b/c'' ''r'')"
    have "fmlookup (entries ?d1) ?k =
        Some \<lparr> key = ?k, expiresAt = t1 + window d, count = 1, firstSeen = t1, lastSeen = t1 \<rparr>"
      using that(1) by (auto simp: Check_def Let_def addEntry_lookup split: option.splits if_splits)
    then show ?thesis using that(2)
      by (simp add: Check_def[of ?d1] Let_def k[symmetric])
  qed
  show ?thesis using k 1 2 by blast
qed

theorem key_collision_witness:
  "fst (fst (Check (New 300) 0 ''a'' ''b/c'' ''r'')) \<and> (100 :: int) < 0 + window (New 300)
   \<and> (''a'', ''b/c'', ''r'') \<noteq> (''a/b'', ''c'', ''r'')
   \<and> fst (Check (snd (Check (New 300) 0 ''a'' ''b/c'' ''r'')) 100 ''a/b'' ''c'' ''r'')
       = (False, 2, 0, 100)"
proof -
  have 1: "fst (fst (Check (New 300) 0 ''a'' ''b/c'' ''r''))"
    by (simp add: Check_def New_def Let_def)
  have 2: "(100 :: int) < 0 + window (New 300)" by (simp add: New_def)
  have 3: "fst (Check (snd (Check (New 300) 0 ''a'' ''b/c'' ''r'')) 100 ''a/b'' ''c'' ''r'')
       = (False, 2, 0, 100)"
    using 1 2 key_collision[of "''a''" "''b/c''" "''r''" "''a/b''" "''c''" "''r''" "New 300" 0 0 100]
    by blast
  show ?thesis using 1 2 3 by simp
qed

subsection \<open>The deduplicator: capacity\<close>

lemma fcard_fmdom: "fcard (fmdom es) = card (fmdom' es)"
  by (simp add: fcard.rep_eq fmdom'_alt_def)

lemma evict_noop: "fcard (fmdom es) < MaxEntries \<Longrightarrow> evict es ord = (es, ord)"
  by (cases ord) auto

lemma evict_dom:
  "fmdom' es \<subseteq> set ord \<Longrightarrow> evict es ord = (es', ord') \<Longrightarrow> fmdom' es' \<subseteq> set ord'"
  by (induction es ord rule: evict.induct) (auto split: if_splits)

lemma evict_under_cap:
  "evict es ord = (es', ord') \<Longrightarrow> fcard (fmdom es') < MaxEntries \<or> ord' = []"
  by (induction es ord rule: evict.induct) (auto split: if_splits)

lemma fcard_fmdom_empty: "fmdom' es \<subseteq> {} \<Longrightarrow> fcard (fmdom es) = 0"
  by (simp add: fcard_fmdom)

text \<open>
  The loop of \<^verbatim>\<open>addEntry\<close> stops under the cap: it stops either there or on an empty
  \<open>order\<close>, and then the map is empty, since its keys stand in \<open>order\<close>.
\<close>

lemma evict_room:
  assumes "fmdom' es \<subseteq> set ord" "evict es ord = (es', ord')"
  shows "fcard (fmdom es') < MaxEntries"
proof -
  from evict_under_cap[OF assms(2)] show ?thesis
  proof
    assume "ord' = []"
    with evict_dom[OF assms] have "fmdom' es' \<subseteq> {}" by simp
    then have "fcard (fmdom es') = 0" by (rule fcard_fmdom_empty)
    then show ?thesis by (simp add: MaxEntries_def fcard_fempty)
  qed
qed

lemma fcard_fmupd_le: "fcard (fmdom (fmupd k e es)) \<le> Suc (fcard (fmdom es))"
  by (simp add: fcard_finsert_if)

lemma addEntry_inv:
  assumes "fmdom' (entries d) \<subseteq> set (order d)"
  shows "cache_inv (addEntry d k now)"
proof -
  obtain es' ord' where ev: "evict (entries d) (order d) = (es', ord')" by fastforce
  have "fcard (fmdom es') < MaxEntries" using evict_room[OF assms ev] .
  then have "fcard (fmdom (fmupd k e es')) \<le> MaxEntries" for e
    using fcard_fmupd_le[of k e es'] by linarith
  moreover have "fmdom' es' \<subseteq> set ord'" using evict_dom[OF assms ev] .
  ultimately show ?thesis
    by (auto simp: cache_inv_def addEntry_def ev Size_def Let_def)
qed

lemma Check_inv: "cache_inv d \<Longrightarrow> cache_inv (snd (Check d now n g r))"
proof -
  assume inv: "cache_inv d"
  let ?k = "dedupKey n g r"
  show ?thesis
  proof (cases "fmlookup (entries d) ?k")
    case None
    then show ?thesis using inv addEntry_inv[of d] by (simp add: Check_def cache_inv_def)
  next
    case (Some e)
    show ?thesis
    proof (cases "now < expiresAt e")
      case True
      have "?k |\<in>| fmdom (entries d)" using Some by (rule fmdomI)
      then have "finsert ?k (fmdom (entries d)) = fmdom (entries d)" by auto
      moreover have "?k \<in> set (order d)"
        using inv Some by (auto simp: cache_inv_def dest: fmdom'I)
      ultimately show ?thesis using inv Some True
        by (auto simp: Check_def cache_inv_def Size_def Let_def)
    next
      case False
      have "fmdom' (entries (d\<lparr>entries := fmdrop ?k (entries d)\<rparr>))
              \<subseteq> set (order (d\<lparr>entries := fmdrop ?k (entries d)\<rparr>))"
        using inv by (auto simp: cache_inv_def)
      from addEntry_inv[OF this] show ?thesis using Some False by (simp add: Check_def Let_def)
    qed
  qed
qed

lemma cleanup_loop_dom:
  "cleanup_loop now ks es acc = (es', acc') \<Longrightarrow>
     fmdom' es' \<subseteq> fmdom' es \<and> set acc \<subseteq> set acc' \<and> fmdom' es' \<inter> set ks \<subseteq> set acc'"
proof (induction now ks es acc arbitrary: es' acc' rule: cleanup_loop.induct)
  case (1 now es newOrder)
  then show ?case by auto
next
  case (2 now k ks es newOrder)
  show ?case
  proof (cases "fmlookup es k")
    case None
    with "2.IH"(1)[OF None] "2.prems" show ?thesis by (auto dest: fmdom'_notI)
  next
    case (Some e)
    show ?thesis
    proof (cases "now < expiresAt e")
      case True
      with "2.IH"(2)[OF Some True] "2.prems" Some show ?thesis by auto
    next
      case False
      with "2.IH"(3)[OF Some False] "2.prems" Some show ?thesis by auto
    qed
  qed
qed

lemma cleanup_inv: "cache_inv d \<Longrightarrow> cache_inv (cleanup d now)"
proof -
  assume inv: "cache_inv d"
  obtain es' acc' where cl: "cleanup_loop now (order d) (entries d) [] = (es', acc')"
    by fastforce
  from cleanup_loop_dom[OF cl] have a: "fmdom' es' \<subseteq> fmdom' (entries d)"
    and b: "fmdom' es' \<inter> set (order d) \<subseteq> set acc'" by auto
  have "card (fmdom' es') \<le> card (fmdom' (entries d))" using a by (simp add: card_mono)
  moreover have "fmdom' es' \<subseteq> set acc'" using a b inv by (auto simp: cache_inv_def)
  ultimately show ?thesis using inv
    by (auto simp: cache_inv_def cleanup_def cl Size_def fcard_fmdom)
qed

lemma step_inv: "cache_inv d \<Longrightarrow> cache_inv (step d op)"
  by (cases op; cases "snd op") (auto simp: Check_inv cleanup_inv)

lemma run_inv: "cache_inv d \<Longrightarrow> cache_inv (run d ops)"
  unfolding run_def by (induction ops arbitrary: d) (auto simp: step_inv)

lemma New_inv: "cache_inv (New w)"
  by (simp add: cache_inv_def New_def Size_def fcard_fempty)

text \<open>
  C6. After every sequence of \<^verbatim>\<open>Check\<close> calls and cleanup sweeps on a new deduplicator,
  over any keys and any clock values, \<^verbatim>\<open>Size()\<close> is at most \<^verbatim>\<open>MaxEntries = 10000\<close>;
  keys left in \<open>order\<close> by a re-insertion after expiry do not break the bound.
\<close>

theorem Size_le_MaxEntries: "Size (run (New w) ops) \<le> MaxEntries \<and> MaxEntries = 10000"
  using run_inv[OF New_inv, of w ops] by (simp add: cache_inv_def MaxEntries_def)

theorem Size_le_MaxEntries_witness:
  "Size (run (New 10) (stale_scenario @ [(11, OpCheck ''b'' ''pod'' ''OOMKilled'')])) \<le> MaxEntries"
  using Size_le_MaxEntries[of 10 "stale_scenario @ [(11, OpCheck ''b'' ''pod'' ''OOMKilled'')]"]
  by simp

subsection \<open>The deduplicator: the invariant of an entry\<close>

lemma evict_fmpred: "fmpred P es \<Longrightarrow> fmpred P (fst (evict es ord))"
  by (induction es ord rule: evict.induct) auto

lemma cleanup_loop_fmpred: "fmpred P es \<Longrightarrow> fmpred P (fst (cleanup_loop now ks es acc))"
  by (induction now ks es acc rule: cleanup_loop.induct)
    (simp_all add: fmpred_drop split: option.splits)

lemma addEntry_fmpred:
  assumes "fmpred P (entries d)"
    and "P k \<lparr> key = k, expiresAt = now + window d, count = 1, firstSeen = now, lastSeen = now \<rparr>"
  shows "fmpred P (entries (addEntry d k now))"
proof -
  obtain es' ord' where ev: "evict (entries d) (order d) = (es', ord')" by fastforce
  have "fmpred P es'" using evict_fmpred[OF assms(1), of "order d"] ev by simp
  then show ?thesis using assms(2) by (auto simp: addEntry_def ev Let_def)
qed

text \<open>
  A property of every entry survives \<^verbatim>\<open>Check\<close> when the fresh entry has it and the
  update of a hit keeps it.
\<close>

lemma Check_fmpred:
  assumes "fmpred P (entries d)"
    and "P (dedupKey n g r) \<lparr> key = dedupKey n g r, expiresAt = now + window d, count = 1,
            firstSeen = now, lastSeen = now \<rparr>"
    and "\<And>e. fmlookup (entries d) (dedupKey n g r) = Some e \<Longrightarrow> now < expiresAt e \<Longrightarrow>
            P (dedupKey n g r)
              (e\<lparr> count := count e + 1, lastSeen := now, expiresAt := now + window d \<rparr>)"
  shows "fmpred P (entries (snd (Check d now n g r)))"
proof (cases "fmlookup (entries d) (dedupKey n g r)")
  case None
  then show ?thesis using addEntry_fmpred[OF assms(1,2)] by (simp add: Check_def)
next
  case (Some e)
  show ?thesis
  proof (cases "now < expiresAt e")
    case True
    then show ?thesis using Some assms(1) assms(3)[OF Some True]
      by (auto simp: Check_def Let_def)
  next
    case False
    have "fmpred P (entries (d\<lparr>entries := fmdrop (dedupKey n g r) (entries d)\<rparr>))"
      using assms(1) by auto
    from addEntry_fmpred[OF this, of "dedupKey n g r" now] assms(2)
    show ?thesis using Some False by (simp add: Check_def Let_def)
  qed
qed

lemma seen_by_mono: "seen_by d t \<Longrightarrow> t \<le> t' \<Longrightarrow> seen_by d t'"
  unfolding seen_by_def fmpred_iff by fastforce

lemma Check_entries_ok:
  assumes "0 \<le> window d" "entries_ok d" "seen_by d now"
  shows "entries_ok (snd (Check d now n g r))"
  unfolding entries_ok_def
proof (rule Check_fmpred)
  show "fmpred (\<lambda>k. entry_ok) (entries d)" using assms(2) by (simp add: entries_ok_def)
  show "entry_ok \<lparr> key = dedupKey n g r, expiresAt = now + window d, count = 1,
            firstSeen = now, lastSeen = now \<rparr>"
    using assms(1) by (simp add: entry_ok_def)
next
  fix e assume l: "fmlookup (entries d) (dedupKey n g r) = Some e"
  have "entry_ok e" using assms(2) l by (auto simp: entries_ok_def)
  moreover have "lastSeen e \<le> now" using assms(3) l by (auto simp: seen_by_def)
  ultimately show
    "entry_ok (e\<lparr> count := count e + 1, lastSeen := now, expiresAt := now + window d \<rparr>)"
    using assms(1) by (simp add: entry_ok_def)
qed

lemma Check_seen_by:
  assumes "seen_by d now"
  shows "seen_by (snd (Check d now n g r)) now"
  unfolding seen_by_def
  by (rule Check_fmpred) (use assms in \<open>simp_all add: seen_by_def\<close>)

lemma cleanup_fmpred: "fmpred P (entries d) \<Longrightarrow> fmpred P (entries (cleanup d now))"
  using cleanup_loop_fmpred[of P "entries d" now "order d" "[]"]
  by (auto simp: cleanup_def split: prod.splits)

lemma step_ok:
  assumes "0 \<le> window d" "entries_ok d" "seen_by d t" "t \<le> fst op"
  shows "entries_ok (step d op) \<and> seen_by (step d op) (fst op)"
proof -
  obtain now oper where op: "op = (now, oper)" by (cases op)
  have s: "seen_by d now" using seen_by_mono[OF assms(3)] assms(4) op by simp
  show ?thesis
  proof (cases oper)
    case (OpCheck n g r)
    then show ?thesis using op Check_entries_ok[OF assms(1,2) s] Check_seen_by[OF s] by simp
  next
    case OpCleanup
    then show ?thesis using op assms(2) s cleanup_fmpred[of _ d now]
      by (simp add: entries_ok_def seen_by_def)
  qed
qed

text \<open>
  C7. With a non-negative window and a clock that does not go back, every entry of the cache
  keeps \<open>firstSeen \<le> lastSeen \<le> expiresAt\<close> and \<open>count \<ge> 1\<close>: from a cache whose entries
  have it and were last seen no later than \<open>t0\<close>, every sequence of \<^verbatim>\<open>Check\<close> calls (a
  creation or a hit) and cleanup sweeps at non-decreasing times from \<open>t0\<close> on leads to a
  cache whose entries have it; the new cache is such a cache.
\<close>

theorem entries_ok_run:
  "0 \<le> window d \<Longrightarrow> entries_ok d \<Longrightarrow> seen_by d t0 \<Longrightarrow> sorted (t0 # map fst ops)
     \<Longrightarrow> entries_ok (run d ops) \<and> entries_ok (New (window d)) \<and> seen_by (New (window d)) t0"
proof (induction ops arbitrary: d t0)
  case Nil
  then show ?case by (simp add: run_def entries_ok_def seen_by_def New_def)
next
  case (Cons op ops)
  have le: "t0 \<le> fst op" using Cons.prems(4) by simp
  have st: "entries_ok (step d op) \<and> seen_by (step d op) (fst op)"
    using step_ok[OF Cons.prems(1,2,3) le] .
  have "sorted (fst op # map fst ops)" using Cons.prems(4) by simp
  then have "entries_ok (run (step d op) ops)"
    using Cons.IH[of "step d op" "fst op"] st Cons.prems(1) by simp
  then show ?case by (simp add: run_def entries_ok_def seen_by_def New_def)
qed

theorem entries_ok_run_witness:
  "0 \<le> window (New 300) \<and> entries_ok (New 300) \<and> seen_by (New 300) 0
   \<and> sorted (0 # map fst ops1) \<and> entries_ok (run (New 300) ops1)"
proof -
  have 1: "0 \<le> window (New 300)" by (simp add: New_def)
  have 2: "entries_ok (New 300)" by (simp add: entries_ok_def New_def)
  have 3: "seen_by (New 300) 0" by (simp add: seen_by_def New_def)
  have 4: "sorted (0 # map fst ops1)" by (simp add: ops1_def)
  show ?thesis using 1 2 3 4 entries_ok_run[of "New 300" 0 ops1] by blast
qed

subsection \<open>The deduplicator: which entry is evicted\<close>

lemma Check_miss_room:
  assumes "fmlookup (entries d) (dedupKey n g r) = None" "card (fmdom' (entries d)) < MaxEntries"
  shows "snd (Check d now n g r) =
           d\<lparr> entries := fmupd (dedupKey n g r) (fresh_entry (dedupKey n g r) now (window d))
                           (entries d),
              order := order d @ [dedupKey n g r] \<rparr>"
  using assms
  by (simp add: Check_def Let_def addEntry_def evict_noop fcard_fmdom fresh_entry_def)

lemma fill_key_inj: "fill_key i = fill_key j \<Longrightarrow> i = j"
proof -
  assume "fill_key i = fill_key j"
  then have "length (fill_key i) = length (fill_key j)" by simp
  then show ?thesis by (simp add: fill_key_def dedupKey_def)
qed

lemma fill_ops_Suc:
  "fill_ops (Suc n) =
     fill_ops n @ [(5, OpCheck (replicate (Suc n) CHR ''x'') ''pod'' ''OOMKilled'')]"
  by (simp add: fill_ops_def)

lemma run_snoc: "run d (ops @ [op]) = step (run d ops) op"
  by (simp add: run_def)

lemma run_Cons: "run d (op # ops) = run (step d op) ops"
  by (simp add: run_def)

text \<open>Filling a cache that has room: every call is a miss and nothing is evicted.\<close>

lemma run_fill:
  assumes "card (fmdom' (entries d)) + n \<le> MaxEntries"
    and "\<And>i. fill_key i \<notin> fmdom' (entries d)"
  shows "window (run d (fill_ops n)) = window d
       \<and> order (run d (fill_ops n)) = order d @ map fill_key [0..<n]
       \<and> fmdom' (entries (run d (fill_ops n))) = fmdom' (entries d) \<union> fill_key ` {0..<n}
       \<and> (\<forall>k. k \<notin> fill_key ` {0..<n} \<longrightarrow>
              fmlookup (entries (run d (fill_ops n))) k = fmlookup (entries d) k)
       \<and> (\<forall>i<n. fmlookup (entries (run d (fill_ops n))) (fill_key i) =
              Some (fresh_entry (fill_key i) 5 (window d)))"
  using assms(1)
proof (induction n)
  case 0
  then show ?case by (simp add: fill_ops_def run_def)
next
  case (Suc n)
  let ?dn = "run d (fill_ops n)"
  have IH: "window ?dn = window d" "order ?dn = order d @ map fill_key [0..<n]"
    "fmdom' (entries ?dn) = fmdom' (entries d) \<union> fill_key ` {0..<n}"
    "\<And>k. k \<notin> fill_key ` {0..<n} \<Longrightarrow> fmlookup (entries ?dn) k = fmlookup (entries d) k"
    "\<And>i. i < n \<Longrightarrow>
       fmlookup (entries ?dn) (fill_key i) = Some (fresh_entry (fill_key i) 5 (window d))"
    using Suc by auto
  have notin: "fill_key n \<notin> fill_key ` {0..<n}" using fill_key_inj by fastforce
  have disj: "fmdom' (entries d) \<inter> fill_key ` {0..<n} = {}" using assms(2) by auto
  have "card (fill_key ` {0..<n}) = n"
    using fill_key_inj by (simp add: card_image inj_on_def)
  then have card: "card (fmdom' (entries ?dn)) = card (fmdom' (entries d)) + n"
    using disj by (simp add: IH(3) card_Un_disjoint)
  have "fill_key n \<notin> fmdom' (entries ?dn)" using notin assms(2)[of n] IH(3) by simp
  then have "fmlookup (entries ?dn) (fill_key n) = None" by (rule fmdom'_notD)
  then have miss:
    "fmlookup (entries ?dn) (dedupKey (replicate (Suc n) CHR ''x'') ''pod'' ''OOMKilled'') = None"
    unfolding fill_key_def .
  have room: "card (fmdom' (entries ?dn)) < MaxEntries" using card Suc.prems by simp
  have st: "run d (fill_ops (Suc n)) =
      ?dn\<lparr> entries := fmupd (fill_key n) (fresh_entry (fill_key n) 5 (window d)) (entries ?dn),
           order := order ?dn @ [fill_key n] \<rparr>"
    using Check_miss_room[OF miss room, of 5] unfolding fill_key_def[symmetric]
    by (simp add: fill_ops_Suc run_snoc IH(1))
  have im: "fill_key ` {0..<Suc n} = insert (fill_key n) (fill_key ` {0..<n})"
    by (simp add: atLeast0_lessThan_Suc)
  show ?case
  proof (intro conjI allI impI)
    show "window (run d (fill_ops (Suc n))) = window d" by (simp add: st IH(1))
    show "order (run d (fill_ops (Suc n))) = order d @ map fill_key [0..<Suc n]"
      by (simp add: st IH(2))
    show "fmdom' (entries (run d (fill_ops (Suc n))))
            = fmdom' (entries d) \<union> fill_key ` {0..<Suc n}"
      by (simp add: st IH(3) im)
  next
    fix k assume "k \<notin> fill_key ` {0..<Suc n}"
    then show "fmlookup (entries (run d (fill_ops (Suc n)))) k = fmlookup (entries d) k"
      by (auto simp: st im IH(4))
  next
    fix i assume "i < Suc n"
    then show "fmlookup (entries (run d (fill_ops (Suc n)))) (fill_key i) =
        Some (fresh_entry (fill_key i) 5 (window d))"
      using IH(5)[of i] fill_key_inj[of n i] by (auto simp: st less_Suc_eq)
  qed
qed

lemma k_not_fill: "dedupKey ''k'' p r \<noteq> fill_key i" "dedupKey ''b'' p r \<noteq> fill_key i"
  by (simp_all add: fill_key_def dedupKey_def)

text \<open>
  C8. The claim: at capacity, a \<^verbatim>\<open>Check\<close> miss evicts the entry whose latest insertion
  is the oldest. The code evicts the key at the head of \<open>order\<close>, and a key re-inserted
  after its expiry stands in \<open>order\<close> twice. On a cache of window 10: \<open>k\<close> is inserted at
  time 0, 9999 other keys at time 5, and \<open>k\<close>, expired, again at time 10; the cache now
  holds 10000 entries, the entry of \<open>k\<close> inserted at time 10 and the others inserted at
  time 5. The next new key, at time 11, evicts \<open>k\<close>, the newest entry, and the entries of
  time 5 stay.
\<close>

theorem stale_key_evicts_newest:
  "Size (run (New 10) stale_scenario) = MaxEntries
   \<and> fmlookup (entries (run (New 10) stale_scenario)) (dedupKey ''k'' ''pod'' ''OOMKilled'') =
        Some \<lparr> key = dedupKey ''k'' ''pod'' ''OOMKilled'', expiresAt = 20, count = 1,
               firstSeen = 10, lastSeen = 10 \<rparr>
   \<and> fmlookup (entries (run (New 10) stale_scenario)) (dedupKey ''x'' ''pod'' ''OOMKilled'') =
        Some \<lparr> key = dedupKey ''x'' ''pod'' ''OOMKilled'', expiresAt = 15, count = 1,
               firstSeen = 5, lastSeen = 5 \<rparr>
   \<and> fmlookup (entries (run (New 10)
          (stale_scenario @ [(11, OpCheck ''b'' ''pod'' ''OOMKilled'')])))
        (dedupKey ''k'' ''pod'' ''OOMKilled'') = None
   \<and> fmlookup (entries (run (New 10)
          (stale_scenario @ [(11, OpCheck ''b'' ''pod'' ''OOMKilled'')])))
        (dedupKey ''x'' ''pod'' ''OOMKilled'') =
        Some \<lparr> key = dedupKey ''x'' ''pod'' ''OOMKilled'', expiresAt = 15, count = 1,
               firstSeen = 5, lastSeen = 5 \<rparr>"
proof -
  let ?k = "dedupKey ''k'' ''pod'' ''OOMKilled''"
  let ?b = "dedupKey ''b'' ''pod'' ''OOMKilled''"
  let ?x = "dedupKey ''x'' ''pod'' ''OOMKilled''"
  define d1 where "d1 = step (New 10) (0, OpCheck ''k'' ''pod'' ''OOMKilled'')"
  define d2 where "d2 = run d1 (fill_ops 9999)"
  define d3 where "d3 = step d2 (10, OpCheck ''k'' ''pod'' ''OOMKilled'')"
  define d4 where "d4 = step d3 (11, OpCheck ''b'' ''pod'' ''OOMKilled'')"
  have r3: "run (New 10) stale_scenario = d3"
    by (simp add: stale_scenario_def run_Cons run_snoc d1_def d2_def d3_def del: step.simps)
  have r4: "run (New 10) (stale_scenario @ [(11, OpCheck ''b'' ''pod'' ''OOMKilled'')]) = d4"
    by (simp only: run_snoc r3 d4_def)
  have x0: "?x = fill_key 0" by (simp add: fill_key_def)
  \<comment> \<open>the first call\<close>
  have d1: "d1 = \<lparr> window = 10, entries = fmupd ?k (fresh_entry ?k 0 10) fmempty, order = [?k] \<rparr>"
    using Check_miss_room[of "New 10" "''k''" "''pod''" "''OOMKilled''" 0]
    by (simp add: d1_def New_def MaxEntries_def)
  \<comment> \<open>9999 further keys fill the cache\<close>
  have "card (fmdom' (entries d1)) + 9999 \<le> MaxEntries" by (simp add: d1 MaxEntries_def)
  moreover have "fill_key i \<notin> fmdom' (entries d1)" for i
    using k_not_fill(1)[of "''pod''" "''OOMKilled''" i] by (simp add: d1)
  ultimately have fill:
    "window d2 = 10" "order d2 = ?k # map fill_key [0..<9999]"
    "fmdom' (entries d2) = insert ?k (fill_key ` {0..<9999})"
    "\<And>k. k \<notin> fill_key ` {0..<9999} \<Longrightarrow> fmlookup (entries d2) k = fmlookup (entries d1) k"
    "\<And>i. i < 9999 \<Longrightarrow> fmlookup (entries d2) (fill_key i) = Some (fresh_entry (fill_key i) 5 10)"
    using run_fill[of d1 9999] unfolding d2_def[symmetric] by (simp_all add: d1)
  have knot: "?k \<notin> fill_key ` {0..<9999}" "?b \<notin> fill_key ` {0..<9999}"
    using k_not_fill by auto
  have cardfill: "card (fill_key ` {0..<9999}) = 9999"
    using fill_key_inj by (simp add: card_image inj_on_def)
  have k2: "fmlookup (entries d2) ?k = Some (fresh_entry ?k 0 10)"
    using fill(4)[OF knot(1)] by (simp add: d1)
  \<comment> \<open>the entry of \<open>k\<close> has expired: it is deleted and inserted again, and \<open>order\<close> keeps the old key\<close>
  have dom2': "fmdom' (fmdrop ?k (entries d2)) = fill_key ` {0..<9999}"
    using knot(1) by (simp add: fill(3))
  have d3: "d3 = d2\<lparr> entries := fmupd ?k (fresh_entry ?k 10 10) (fmdrop ?k (entries d2)),
                      order := ?k # map fill_key [0..<9999] @ [?k] \<rparr>"
  proof -
    have "fcard (fmdom (fmdrop ?k (entries d2))) < MaxEntries"
      by (simp only: fcard_fmdom dom2' cardfill MaxEntries_def)
    then have "evict (fmdrop ?k (entries d2)) (order d2) = (fmdrop ?k (entries d2), order d2)"
      by (rule evict_noop)
    then have "addEntry (d2\<lparr>entries := fmdrop ?k (entries d2)\<rparr>) ?k 10 =
        d2\<lparr> entries := fmupd ?k (fresh_entry ?k 10 10) (fmdrop ?k (entries d2)),
            order := order d2 @ [?k] \<rparr>"
      by (simp add: addEntry_def fresh_entry_def fill(1))
    then show ?thesis using k2
      by (simp add: d3_def Check_def Let_def fresh_entry_def fill(2))
  qed
  have dom3: "fmdom' (entries d3) = insert ?k (fill_key ` {0..<9999})"
    by (simp add: d3 fill(3))
  have size3: "card (fmdom' (entries d3)) = 10000"
    using knot(1) cardfill by (simp add: dom3)
  have k3: "fmlookup (entries d3) ?k = Some (fresh_entry ?k 10 10)" by (simp add: d3)
  have x3: "fmlookup (entries d3) ?x = Some (fresh_entry ?x 5 10)"
    using fill(5)[of 0] k_not_fill(1)[of "''pod''" "''OOMKilled''" 0] by (simp add: d3 x0)
  \<comment> \<open>the next new key evicts the head of \<open>order\<close>, which is \<open>k\<close>\<close>
  have b3: "fmlookup (entries d3) ?b = None"
    using knot(2) by (auto simp: dom3 dedupKey_def intro!: fmdom'_notD)
  have ev: "evict (entries d3) (order d3) =
              (fmdrop ?k (entries d3), map fill_key [0..<9999] @ [?k])"
  proof -
    have "fmdom' (fmdrop ?k (entries d3)) = fill_key ` {0..<9999}"
      using knot(1) by (simp add: dom3)
    then have "fcard (fmdom (fmdrop ?k (entries d3))) < MaxEntries"
      by (simp only: fcard_fmdom cardfill MaxEntries_def)
    then have "evict (fmdrop ?k (entries d3)) (map fill_key [0..<9999] @ [?k]) =
        (fmdrop ?k (entries d3), map fill_key [0..<9999] @ [?k])" by (rule evict_noop)
    moreover have "order d3 = ?k # (map fill_key [0..<9999] @ [?k])" by (simp add: d3)
    moreover have "fcard (fmdom (entries d3)) \<ge> MaxEntries"
      by (simp only: fcard_fmdom size3 MaxEntries_def)
    ultimately show ?thesis by (simp only: evict.simps if_True)
  qed
  have d4: "entries d4 = fmupd ?b (fresh_entry ?b 11 10) (fmdrop ?k (entries d3))"
  proof -
    have w3: "window d3 = 10" by (simp add: d3 fill(1))
    have "entries (addEntry d3 ?b 11) = fmupd ?b (fresh_entry ?b 11 10) (fmdrop ?k (entries d3))"
      by (simp add: addEntry_def ev fresh_entry_def w3)
    then show ?thesis using b3 by (simp add: d4_def Check_def Let_def)
  qed
  have kb: "?b \<noteq> ?k" "?b \<noteq> ?x" by (simp_all add: dedupKey_def)
  have "Size d3 = MaxEntries" by (simp add: Size_def fcard_fmdom size3 MaxEntries_def)
  moreover have "fmlookup (entries d4) ?k = None" using kb by (simp add: d4)
  moreover have "fmlookup (entries d4) ?x = Some (fresh_entry ?x 5 10)"
    using kb x3 k_not_fill(1)[of "''pod''" "''OOMKilled''" 0] by (simp add: d4 x0)
  ultimately show ?thesis using k3 x3 by (simp add: r3 r4 fresh_entry_def)
qed

subsection \<open>The watcher\<close>

text \<open>
  C1. For an event that passes \<^verbatim>\<open>ShouldProcess\<close>, \<^verbatim>\<open>processEvent\<close> calls \<^verbatim>\<open>Check\<close> on
  the effective namespace, the derived deployment and the reason, whatever
  \<^verbatim>\<open>MeetsThreshold\<close> says: the deduplicator afterwards is the one \<^verbatim>\<open>Check\<close> leaves (it
  holds an entry for the key), and the one value handed to the sender carries the results
  of \<^verbatim>\<open>Check\<close> and the flag \<open>MeetsThreshold(event) \<and> isNew\<close>.
\<close>

theorem processEvent_spec:
  assumes "ShouldProcess (w_filter w) e"
  shows "\<exists>isNew cnt fs ls d'.
      Check (w_dedup w) now (effectiveNamespace e)
          (ExtractDeploymentName (obj_Name (InvolvedObject e))) (Reason e)
        = ((isNew, cnt, fs, ls), d')
      \<and> processEvent w now e =
          w\<lparr> w_dedup := d',
             w_sent := w_sent w @
               [\<lparr> ed_Event = e, Severity = GetSeverity (w_filter w) (Reason e), ed_Count = cnt,
                  FirstSeen = fs, LastSeen = ls,
                  ed_MeetsThreshold = (MeetsThreshold (w_filter w) e \<and> isNew) \<rparr>] \<rparr>
      \<and> fmlookup (entries (w_dedup (processEvent w now e)))
            (dedupKey (effectiveNamespace e)
               (ExtractDeploymentName (obj_Name (InvolvedObject e))) (Reason e)) \<noteq> None"
proof -
  let ?n = "effectiveNamespace e" and ?g = "ExtractDeploymentName (obj_Name (InvolvedObject e))"
  obtain isNew cnt fs ls d' where
    c: "Check (w_dedup w) now ?n ?g (Reason e) = ((isNew, cnt, fs, ls), d')"
    by (metis prod.exhaust)
  have "fmlookup (entries (snd (Check (w_dedup w) now ?n ?g (Reason e))))
          (dedupKey ?n ?g (Reason e)) \<noteq> None"
    by (auto simp: Check_def Let_def addEntry_lookup split: option.splits)
  then have "fmlookup (entries d') (dedupKey ?n ?g (Reason e)) \<noteq> None" using c by simp
  then show ?thesis using assms c by (simp add: processEvent_def Let_def)
qed

theorem processEvent_spec_witness:
  "ShouldProcess (w_filter w1) ev2 \<and> \<not> MeetsThreshold (w_filter w1) ev2
   \<and> map ed_MeetsThreshold (w_sent (processEvent w1 100 ev2)) = [False]
   \<and> fmlookup (entries (w_dedup (processEvent w1 100 ev2))) ''production/worker/Unhealthy''
        \<noteq> None
   \<and> ShouldProcess (w_filter w1) ev1
   \<and> map ed_MeetsThreshold (w_sent (processEvent w1 100 ev1)) = [True]"
proof -
  have sp: "ShouldProcess (w_filter w1) ev2" "ShouldProcess (w_filter w1) ev1"
    by (simp_all add: w1_def f1_def ev1_def ev2_def New_Filter_def toSet_def ShouldProcess_def
        effectiveNamespace_def EventTypeWarning_def)
  have mt: "\<not> MeetsThreshold (w_filter w1) ev2" "MeetsThreshold (w_filter w1) ev1"
    by (simp_all add: w1_def f1_def ev1_def ev2_def New_Filter_def MeetsThreshold_def)
  have dn: "ExtractDeploymentName (obj_Name (InvolvedObject ev2)) = ''worker''"
    "ExtractDeploymentName (obj_Name (InvolvedObject ev1)) = ''worker''"
    by (simp_all add: ev1_def ev2_def ExtractDeploymentName_def isLowerOrDigit_def)
  have k: "dedupKey (effectiveNamespace ev2) ''worker'' (Reason ev2)
             = ''production/worker/Unhealthy''"
    by (simp add: dedupKey_def effectiveNamespace_def ev1_def ev2_def)
  have new1: "fst (fst (Check (w_dedup w1) 100 (effectiveNamespace ev1) ''worker'' (Reason ev1)))"
    by (simp add: Check_def Let_def w1_def New_def)
  from processEvent_spec[OF sp(1), of 100] obtain isNew cnt fs ls d' where
    a: "processEvent w1 100 ev2 =
          w1\<lparr> w_dedup := d',
              w_sent := w_sent w1 @
                [\<lparr> ed_Event = ev2, Severity = GetSeverity (w_filter w1) (Reason ev2),
                   ed_Count = cnt, FirstSeen = fs, LastSeen = ls,
                   ed_MeetsThreshold = (MeetsThreshold (w_filter w1) ev2 \<and> isNew) \<rparr>] \<rparr>"
    and b: "fmlookup (entries (w_dedup (processEvent w1 100 ev2)))
              (dedupKey (effectiveNamespace ev2)
                 (ExtractDeploymentName (obj_Name (InvolvedObject ev2))) (Reason ev2)) \<noteq> None"
    by blast
  from processEvent_spec[OF sp(2), of 100] obtain isNew' cnt' fs' ls' d'' where
    c: "Check (w_dedup w1) 100 (effectiveNamespace ev1)
          (ExtractDeploymentName (obj_Name (InvolvedObject ev1))) (Reason ev1)
        = ((isNew', cnt', fs', ls'), d'')"
    and d: "processEvent w1 100 ev1 =
          w1\<lparr> w_dedup := d'',
              w_sent := w_sent w1 @
                [\<lparr> ed_Event = ev1, Severity = GetSeverity (w_filter w1) (Reason ev1),
                   ed_Count = cnt', FirstSeen = fs', LastSeen = ls',
                   ed_MeetsThreshold = (MeetsThreshold (w_filter w1) ev1 \<and> isNew') \<rparr>] \<rparr>"
    by blast
  have ws: "w_sent w1 = []" by (simp add: w1_def)
  have "isNew'" using new1 c by (simp add: dn)
  then have "map ed_MeetsThreshold (w_sent (processEvent w1 100 ev1)) = [True]"
    using mt(2) unfolding d by (simp add: ws)
  moreover have "map ed_MeetsThreshold (w_sent (processEvent w1 100 ev2)) = [False]"
    using mt(1) unfolding a by (simp add: ws)
  moreover have "fmlookup (entries (w_dedup (processEvent w1 100 ev2)))
      ''production/worker/Unhealthy'' \<noteq> None"
    using b unfolding dn k .
  ultimately show ?thesis using sp mt by simp
qed

subsection \<open>The configuration\<close>


text \<open>An item without a colon is skipped: the loop goes on as if the item were not there.\<close>

lemma parseThresholdItems_skip:
  "CHR '':'' \<notin> set item \<Longrightarrow>
     parseThresholdItems L (item # items) th = parseThresholdItems L items th"
  by (simp add: SplitN2_def)

lemma item_without_colon_any_library:
  assumes "TrimSpace L ''Unhealthy'' = ''Unhealthy''" "ParseDuration L ''5m'' = (dw, None)"
  shows "Load L env_no_colon False =
     (Some \<lparr> SentryDSN = ''https://key@sentry.example/1'', SentryEnvironment = ''production'',
             Namespaces = [], ExcludeNamespaces = [''kube-system''],
             EventReasons = DefaultEventReasons, EventThresholds = DefaultEventThresholds,
             EnableLogs = True, DedupWindow = dw, LogLevel = ''info'' \<rparr>,
      None)"
  using assms
  by (simp add: Load_def Let_def env_no_colon_def env_of_def getEnvOrDefault_def
      splitAndTrim_def SplitN2_def)





end
